theory Spec2Isabelle
  imports Main "HOL-Library.Multiset"
begin

section \<open>Data model (types.ts)\<close>

text \<open>
  The broadcast console keeps one array of \<open>AudioItem\<close> objects (the queue), the
  operator's settings, a connectivity flag and three mutable references used by the polling
  loop. The enumerations and interfaces below follow \<^verbatim>\<open>types.ts\<close>; the functions
  of the later sections follow \<^verbatim>\<open>App.tsx\<close>.

  Conventions of the embedding:
  \<^item> a JavaScript string is a \<open>string\<close>; a field that is missing, \<^verbatim>\<open>undefined\<close>
    or empty is the empty string wherever the code only tests its truthiness;
  \<^item> \<^verbatim>\<open>Date.now()\<close> and \<^verbatim>\<open>new Date()\<close> are a parameter \<open>now\<close> (milliseconds);
  \<^item> the field \<^verbatim>\<open>id\<close> is called \<open>itemId\<close>, since \<open>id\<close> is the identity function of HOL;
  \<^item> the queue is an array of object references. Every array the code builds holds each
    object at most once, so an assignment \<^verbatim>\<open>q[i].status = s\<close> through the array is the
    list update at position \<open>i\<close>.
\<close>

datatype AudioSource = AI | MANUAL

datatype AudioStatus = PLAYING | QUEUED | COMPLETED

record AudioItem =
  itemId :: string
  filename :: string
  source :: AudioSource
  duration :: string
  timestamp :: nat
  status :: AudioStatus
  description :: string
  audioUrl :: string

record AppSettings =
  n8nUrl :: string
  matchId :: string
  persona :: string
  dataProvider :: string
  apiFootballKey :: string
  sportmonksKey :: string
  elevenLabsKey :: string
  openRouterKey :: string
  autoPlay :: bool
  pollInterval :: nat
  liveMatchUrl :: string

section \<open>Array helpers\<close>

text \<open>\<^verbatim>\<open>Array.prototype.findIndex\<close>: the first index whose element satisfies the
  predicate; \<open>None\<close> stands for the result \<^verbatim>\<open>-1\<close>.\<close>

fun findIndex :: "('a \<Rightarrow> bool) \<Rightarrow> 'a list \<Rightarrow> nat option" where
  "findIndex P [] = None"
| "findIndex P (x # xs) =
     (if P x then Some 0
      else (case findIndex P xs of None \<Rightarrow> None | Some i \<Rightarrow> Some (Suc i)))"

text \<open>\<^verbatim>\<open>xs.splice(i, 1)\<close> for an index inside the array, and
  \<^verbatim>\<open>xs.splice(i, 0, ...ys)\<close>.\<close>

definition splice_remove :: "nat \<Rightarrow> 'a list \<Rightarrow> 'a list" where
  "splice_remove i xs = take i xs @ drop (Suc i) xs"

definition splice_insert :: "nat \<Rightarrow> 'a list \<Rightarrow> 'a list \<Rightarrow> 'a list" where
  "splice_insert i ys xs = take i xs @ ys @ drop i xs"

text \<open>The assignment \<^verbatim>\<open>xs[i].status = s\<close> for an index inside the array.\<close>

definition set_status :: "nat \<Rightarrow> AudioStatus \<Rightarrow> AudioItem list \<Rightarrow> AudioItem list" where
  "set_status i s xs = xs[i := (xs ! i)\<lparr>status := s\<rparr>]"

definition isPlaying :: "AudioItem \<Rightarrow> bool" where
  "isPlaying i = (status i = PLAYING)"

definition isQueued :: "AudioItem \<Rightarrow> bool" where
  "isQueued i = (status i = QUEUED)"

text \<open>\<^verbatim>\<open>String.prototype.includes\<close>: the keyword occurs as a contiguous, case-sensitive
  substring.\<close>

fun startsWith :: "string \<Rightarrow> string \<Rightarrow> bool" where
  "startsWith s [] = True"
| "startsWith [] (k # ks) = False"
| "startsWith (c # cs) (k # ks) = (c = k \<and> startsWith cs ks)"

fun includes_str :: "string \<Rightarrow> string \<Rightarrow> bool" where
  "includes_str [] k = (k = [])"
| "includes_str (c # cs) k = (startsWith (c # cs) k \<or> includes_str cs k)"

section \<open>Playback logic and commands (App.tsx)\<close>

text \<open>
  Each handler calls \<^verbatim>\<open>setQueue(prev => ...)\<close>; a function below that maps a queue to
  a queue is that updater. A handler is a closure of the render that created it: the
  \<^verbatim>\<open>settings\<close> it reads are the settings of that render, and a \<^verbatim>\<open>setSettings\<close> call
  does not change them. So the \<^verbatim>\<open>settings\<close>, or the value of \<^verbatim>\<open>settings.autoPlay\<close>,
  that a handler reads are a parameter. The audio element, which the handlers pause and
  rewind, is outside the model.
\<close>

text \<open>The recurring block
  \<^verbatim>\<open>if (!settings.autoPlay) { setSettings({ ...settings, autoPlay: true }); ... }\<close>:
  the argument of the \<^verbatim>\<open>setSettings\<close> call, if the call is made. A handler that may call
  \<^verbatim>\<open>setSettings\<close> returns this next to the queue.\<close>

definition enableAutoPlay :: "AppSettings \<Rightarrow> AppSettings option" where
  "enableAutoPlay settings =
     (if \<not> autoPlay settings then Some (settings\<lparr>autoPlay := True\<rparr>) else None)"

definition handleAudioEnded :: "bool \<Rightarrow> AudioItem list \<Rightarrow> AudioItem list" where
  "handleAudioEnded settings_autoPlay prev =
     (case findIndex isPlaying prev of
        None \<Rightarrow> prev
      | Some currentPlayingIndex \<Rightarrow>
          (let marked = set_status currentPlayingIndex COMPLETED prev;
               newQueue = splice_remove currentPlayingIndex marked
           in if length newQueue > 0 \<and> settings_autoPlay
              then set_status 0 PLAYING newQueue
              else newQueue))"

text \<open>\<^verbatim>\<open>handleSkip\<close>: when auto-play is off it asks for new settings with auto-play on,
  then calls \<^verbatim>\<open>handleAudioEnded()\<close> of the same render, whose updater still reads the
  \<^verbatim>\<open>settings\<close> of that render.\<close>

definition handleSkip ::
  "AppSettings \<Rightarrow> AudioItem list \<Rightarrow> AppSettings option \<times> AudioItem list" where
  "handleSkip settings prev =
     (enableAutoPlay settings, handleAudioEnded (autoPlay settings) prev)"

definition handleStop ::
  "AppSettings \<Rightarrow> AudioItem list \<Rightarrow> AppSettings option \<times> AudioItem list" where
  "handleStop settings prev =
     (Some (settings\<lparr>autoPlay := False\<rparr>),
      map (\<lambda>item. if status item = PLAYING then item\<lparr>status := COMPLETED\<rparr> else item) prev)"

definition handleClear :: "AudioItem list \<Rightarrow> AudioItem list" where
  "handleClear prev = filter (\<lambda>item. status item = PLAYING) prev"

definition handleRemoveItem :: "bool \<Rightarrow> string \<Rightarrow> AudioItem list \<Rightarrow> AudioItem list" where
  "handleRemoveItem settings_autoPlay ident prev =
     (let newQueue = filter (\<lambda>i. itemId i \<noteq> ident) prev;
          playing = find isPlaying newQueue
      in if playing = None \<and> settings_autoPlay \<and> length newQueue > 0
         then set_status 0 PLAYING newQueue
         else newQueue)"

definition handleManualPlay ::
  "AppSettings \<Rightarrow> string \<Rightarrow> AudioItem list \<Rightarrow> AppSettings option \<times> AudioItem list" where
  "handleManualPlay settings ident prev =
     (case find (\<lambda>i. itemId i = ident) prev of
        None \<Rightarrow> (None, prev)
      | Some itemToPlay \<Rightarrow>
          (let otherItems =
                 map (\<lambda>i. i\<lparr>status := (if status i = PLAYING then QUEUED else status i)\<rparr>)
                   (filter (\<lambda>i. itemId i \<noteq> ident) prev)
           in (enableAutoPlay settings, itemToPlay\<lparr>status := PLAYING\<rparr> # otherItems)))"

definition handleManualStopItem :: "string \<Rightarrow> AudioItem list \<Rightarrow> AudioItem list" where
  "handleManualStopItem ident prev =
     (case find (\<lambda>i. itemId i = ident) prev of
        None \<Rightarrow> prev
      | Some item \<Rightarrow>
          (if status item = PLAYING
           then map (\<lambda>i. if itemId i = ident then i\<lparr>status := COMPLETED\<rparr> else i) prev
           else prev))"

definition handleReorder :: "AudioItem list \<Rightarrow> AudioItem list \<Rightarrow> AudioItem list" where
  "handleReorder newQueue prev = newQueue"

section \<open>Manual upload and chat injection\<close>

text \<open>Decimal rendering of a number inside a template string.\<close>

definition digit_char :: "nat \<Rightarrow> char" where
  "digit_char d = char_of (48 + d)"

fun string_of_nat :: "nat \<Rightarrow> string" where
  "string_of_nat n =
     (if n < 10 then [digit_char n] else string_of_nat (n div 10) @ [digit_char (n mod 10)])"

declare string_of_nat.simps [simp del]

text \<open>\<^verbatim>\<open>handleManualUpload\<close>: \<open>file_name\<close> is \<^verbatim>\<open>file.name\<close> and \<open>objectUrl\<close> the result
  of \<^verbatim>\<open>URL.createObjectURL(file)\<close>.\<close>

definition manualItem :: "nat \<Rightarrow> string \<Rightarrow> string \<Rightarrow> AudioItem" where
  "manualItem now file_name objectUrl =
     \<lparr>itemId = ''manual_'' @ string_of_nat now,
      filename = file_name,
      source = MANUAL,
      duration = ''Unknown'',
      timestamp = now,
      status = QUEUED,
      description = ''Manual Override: '' @ file_name,
      audioUrl = objectUrl\<rparr>"

text \<open>The updater of manual upload (one new item) and of chat injection (the items of
  the response), which are the same code: the first PLAYING item, the new items, then every
  item that is not PLAYING; when nothing plays, the first item of the result starts
  playing. Both callers pass at least one new item.\<close>

definition insertAtTop :: "AudioItem list \<Rightarrow> AudioItem list \<Rightarrow> AudioItem list" where
  "insertAtTop newItems prev =
     (let playing = find isPlaying prev;
          waiting = filter (\<lambda>i. status i \<noteq> PLAYING) prev
      in (case playing of
            Some p \<Rightarrow> p # newItems @ waiting
          | None \<Rightarrow> set_status 0 PLAYING (newItems @ waiting)))"

definition handleManualUpload ::
  "AppSettings \<Rightarrow> nat \<Rightarrow> string \<Rightarrow> string \<Rightarrow> AudioItem list
     \<Rightarrow> AppSettings option \<times> AudioItem list" where
  "handleManualUpload settings now file_name objectUrl prev =
     (enableAutoPlay settings, insertAtTop [manualItem now file_name objectUrl] prev)"

text \<open>An event of a response. \<^verbatim>\<open>atob\<close> throws on a string that is not base64 (\<open>None\<close>);
  \<^verbatim>\<open>URL.createObjectURL\<close> names the decoded bytes. Both belong to the browser.

  The events of the model carry a string id. The polling loop compares ids with
  \<^verbatim>\<open>===\<close>, so an event without id (\<^verbatim>\<open>undefined\<close>) differs from the initial cursor
  \<^verbatim>\<open>''\<close> in the code, while the empty id of the model equals it: polled events without
  id are outside the model. Chat injection only tests the id's truthiness, where the empty
  id stands for a missing one.\<close>

record Event =
  eventId :: string
  eventDescription :: string
  eventText :: string
  audioBase64 :: string

record Browser =
  atob :: "string \<Rightarrow> string option"
  createObjectURL :: "string \<Rightarrow> string"

text \<open>The body of the \<^verbatim>\<open>try\<close> block that builds \<^verbatim>\<open>audioUrl\<close>; \<open>None\<close> is the
  exception that the \<^verbatim>\<open>catch\<close> logs, after which the event yields no item.\<close>

definition decodeAudio :: "Browser \<Rightarrow> Event \<Rightarrow> string option" where
  "decodeAudio br event =
     (if audioBase64 event = [] then Some []
      else (case atob br (audioBase64 event) of
              None \<Rightarrow> None
            | Some byteCharacters \<Rightarrow> Some (createObjectURL br byteCharacters)))"

definition orElse :: "string \<Rightarrow> string \<Rightarrow> string" where
  "orElse a b = (if a = [] then b else a)"

text \<open>The item of a chat event. (For an event without id the code's file name reads
  \<^verbatim>\<open>ai_chat_undefined.mp3\<close>; nothing reads the file name.)\<close>

definition chatItem :: "nat \<Rightarrow> Event \<Rightarrow> string \<Rightarrow> AudioItem" where
  "chatItem now event url =
     \<lparr>itemId = orElse (eventId event) (''chat_'' @ string_of_nat now),
      filename = ''ai_chat_'' @ eventId event @ ''.mp3'',
      source = AI,
      duration = ''Unknown'',
      timestamp = now,
      status = QUEUED,
      description = orElse (eventDescription event) (orElse (eventText event) ''Chat Response''),
      audioUrl = url\<rparr>"

fun chatItems :: "Browser \<Rightarrow> nat \<Rightarrow> Event list \<Rightarrow> AudioItem list" where
  "chatItems br now [] = []"
| "chatItems br now (event # events) =
     (case decodeAudio br event of
        None \<Rightarrow> chatItems br now events
      | Some url \<Rightarrow> chatItem now event url # chatItems br now events)"

text \<open>\<^verbatim>\<open>handleChatSubmit\<close> from the arrival of a successful response with the given
  events on; \<open>settings\<close> are the settings of the render that submitted the message. A failed
  request, or a response without items, changes nothing.\<close>

definition handleChatSubmit ::
  "Browser \<Rightarrow> nat \<Rightarrow> AppSettings \<Rightarrow> Event list \<Rightarrow> AudioItem list
     \<Rightarrow> AppSettings option \<times> AudioItem list" where
  "handleChatSubmit br now settings events prev =
     (let newItems = chatItems br now events
      in if length newItems > 0
         then (enableAutoPlay settings, insertAtTop newItems prev)
         else (None, prev))"

section \<open>The polling loop\<close>

text \<open>
  The mutable state of the component: the two pieces of React state the scheduler owns
  (\<^verbatim>\<open>settings\<close>, \<^verbatim>\<open>queue\<close>), the connectivity flag \<^verbatim>\<open>status.n8nConnection\<close>, and
  the references \<^verbatim>\<open>lastEventRef\<close>, \<^verbatim>\<open>lastStatsRef\<close> (\<open>None\<close> is \<^verbatim>\<open>null\<close>; the
  statistics are an opaque value) and \<^verbatim>\<open>pollCountRef\<close>. The match details shown on
  screen, and the elapsed-time hint that updates them, are not part of the model.
\<close>

record AppState =
  settings :: AppSettings
  queue :: "AudioItem list"
  n8nConnection :: bool
  lastEventRef :: string
  lastStatsRef :: "string option"
  pollCountRef :: nat

text \<open>The effect of a handler on the state: the queue its updater returns, and the
  settings it passed to \<^verbatim>\<open>setSettings\<close>, if it did.\<close>

definition withSettingsQueue :: "AppState \<Rightarrow> AppSettings option \<times> AudioItem list \<Rightarrow> AppState" where
  "withSettingsQueue st r =
     (case fst r of
        None \<Rightarrow> st\<lparr>queue := snd r\<rparr>
      | Some newSettings \<Rightarrow> st\<lparr>settings := newSettings, queue := snd r\<rparr>)"

definition initialState :: "AppSettings \<Rightarrow> AppState" where
  "initialState s =
     \<lparr>settings = s, queue = [], n8nConnection = False,
      lastEventRef = [], lastStatsRef = None, pollCountRef = 0\<rparr>"

definition saveSettings :: "AppSettings \<Rightarrow> AppState \<Rightarrow> AppState" where
  "saveSettings newSettings st =
     (let st1 = (if matchId newSettings \<noteq> matchId (settings st)
                 then st\<lparr>lastEventRef := [], lastStatsRef := None, queue := []\<rparr>
                 else st)
      in st1\<lparr>settings := newSettings, n8nConnection := (n8nUrl newSettings \<noteq> [])\<rparr>)"

definition handleResetMatch :: "AppState \<Rightarrow> AppState" where
  "handleResetMatch st =
     st\<lparr>settings := (settings st)\<lparr>matchId := [], liveMatchUrl := []\<rparr>,
        queue := [], lastEventRef := [], lastStatsRef := None\<rparr>"

text \<open>The JSON body of the poll request.\<close>

record PollBody =
  body_matchId :: string
  body_type :: string
  body_lastEventId :: string
  body_lastStats :: "string option"
  body_persona :: string
  skipApi :: bool
  body_dataProvider :: string
  key_football :: string
  key_sportmonks :: string
  key_elevenLabs :: string
  key_openRouter :: string

definition shouldCallApi :: "nat \<Rightarrow> bool" where
  "shouldCallApi pollCount = (pollCount mod 5 = 0 \<or> pollCount = 1)"

text \<open>
  \<^verbatim>\<open>pollN8N\<close> up to the \<^verbatim>\<open>await fetch\<close>. With incomplete settings no request is sent
  and the result is the retry timer (\<open>Some 1000\<close> while the effect is mounted). Otherwise
  the poll counter is incremented and the result is the request, with the settings the
  tick captured in \<^verbatim>\<open>currentSettings\<close>.
\<close>

datatype PollStart = NoRequest "nat option" | Request AppSettings PollBody

definition pollN8N_start :: "bool \<Rightarrow> AppState \<Rightarrow> AppState \<times> PollStart" where
  "pollN8N_start isMounted st =
     (let currentSettings = settings st
      in if n8nUrl currentSettings = [] \<or> matchId currentSettings = []
         then (st, NoRequest (if isMounted then Some 1000 else None))
         else
           (let st1 = st\<lparr>pollCountRef := pollCountRef st + 1\<rparr>
            in (st1,
                Request currentSettings
                  \<lparr>body_matchId = matchId currentSettings,
                   body_type = ''POLL'',
                   body_lastEventId = lastEventRef st1,
                   body_lastStats = lastStatsRef st1,
                   body_persona = persona currentSettings,
                   skipApi = (\<not> shouldCallApi (pollCountRef st1)),
                   body_dataProvider = orElse (dataProvider currentSettings) ''api-football'',
                   key_football = apiFootballKey currentSettings,
                   key_sportmonks = sportmonksKey currentSettings,
                   key_elevenLabs = elevenLabsKey currentSettings,
                   key_openRouter = openRouterKey currentSettings\<rparr>)))"

text \<open>The parsed response: \<^verbatim>\<open>data.currentStats\<close> (\<open>None\<close> when absent) and
  \<^verbatim>\<open>data.events\<close> (empty when absent or not an array).\<close>

record PollData =
  currentStats :: "string option"
  events :: "Event list"

text \<open>How the awaited part ends: the 8 second timer aborted the request, the request
  failed on the network, the server answered with a status that is not ok (status and
  body), the body was not JSON, or the response was parsed.\<close>

datatype FetchOutcome =
    AbortError
  | NetworkError
  | NotOk nat string
  | BadJson
  | Ok PollData

definition pollItem :: "nat \<Rightarrow> Event \<Rightarrow> string \<Rightarrow> AudioItem" where
  "pollItem now event url =
     \<lparr>itemId = eventId event,
      filename = ''ai_commentary_'' @ eventId event @ ''.mp3'',
      source = AI,
      duration = ''Unknown'',
      timestamp = now,
      status = QUEUED,
      description = orElse (eventDescription event) (orElse (eventText event) ''New Event''),
      audioUrl = url\<rparr>"

text \<open>The \<^verbatim>\<open>forEach\<close> over the events of a response: the state of the loop is the
  cursor \<^verbatim>\<open>lastEventRef.current\<close> and the array \<^verbatim>\<open>newItems\<close>.\<close>

fun processEvents ::
  "Browser \<Rightarrow> nat \<Rightarrow> Event list \<Rightarrow> string \<times> AudioItem list \<Rightarrow> string \<times> AudioItem list" where
  "processEvents br now [] acc = acc"
| "processEvents br now (event # rest) (lastEvent, newItems) =
     (if eventId event = lastEvent then processEvents br now rest (lastEvent, newItems)
      else (case decodeAudio br event of
              None \<Rightarrow> processEvents br now rest (eventId event, newItems)
            | Some url \<Rightarrow>
                processEvents br now rest (eventId event, newItems @ [pollItem now event url])))"

definition importantKeywords :: "string list" where
  "importantKeywords = [''Goal'', ''Penalty'', ''Red Card'', ''Yellow Card'', ''VAR'']"

definition isImportant :: "AudioItem \<Rightarrow> bool" where
  "isImportant i = list_ex (\<lambda>k. includes_str (description i) k) importantKeywords"

text \<open>The updater that merges the new items of a poll into the queue. It reads the
  captured \<^verbatim>\<open>currentSettings\<close>; the first component is the argument of the
  \<^verbatim>\<open>setSettings\<close> call it makes, if it makes one.\<close>

definition pollMerge ::
  "AppSettings \<Rightarrow> AudioItem list \<Rightarrow> AudioItem list \<Rightarrow> AppSettings option \<times> AudioItem list" where
  "pollMerge currentSettings newItems prev =
     (let priorityItems = filter isImportant newItems;
          normalItems = filter (\<lambda>i. \<not> isImportant i) newItems;
          playingIndex = findIndex isPlaying prev;
          (updatedQueue, newSettings) =
            (if length priorityItems > 0
             then
               (let inserted =
                      (case playingIndex of
                         Some i \<Rightarrow> splice_insert (i + 1) priorityItems prev
                       | None \<Rightarrow> set_status 0 PLAYING priorityItems @ prev)
                in (inserted @ normalItems, enableAutoPlay currentSettings))
             else (prev @ newItems, None));
          isPlayingNow = list_ex isPlaying updatedQueue
      in if \<not> isPlayingNow \<and> autoPlay currentSettings
         then (case findIndex isQueued updatedQueue of
                 Some n \<Rightarrow> (newSettings, set_status n PLAYING updatedQueue)
               | None \<Rightarrow> (newSettings, updatedQueue))
         else (newSettings, updatedQueue))"

text \<open>The block that handles a parsed response (the body of \<^verbatim>\<open>if (isMounted)\<close> in the
  \<^verbatim>\<open>try\<close>): the statistics snapshot, the events, the connectivity flag.\<close>

definition applyPollData :: "Browser \<Rightarrow> nat \<Rightarrow> AppSettings \<Rightarrow> PollData \<Rightarrow> AppState \<Rightarrow> AppState" where
  "applyPollData br now currentSettings data st =
     (let st1 = (case currentStats data of
                   Some stats \<Rightarrow> st\<lparr>lastStatsRef := Some stats\<rparr>
                 | None \<Rightarrow> st);
          st2 =
            (if length (events data) > 0
             then
               (let (lastEvent, newItems) =
                      processEvents br now (events data) (lastEventRef st1, []);
                    st1a = st1\<lparr>lastEventRef := lastEvent\<rparr>
                in if length newItems > 0
                   then withSettingsQueue st1a (pollMerge currentSettings newItems (queue st1a))
                   else st1a)
             else st1)
      in st2\<lparr>n8nConnection := True\<rparr>)"

text \<open>
  \<^verbatim>\<open>pollN8N\<close> from the end of the \<^verbatim>\<open>await\<close> on: \<open>isMounted\<close> is the flag of the
  polling effect (cleared only when the effect is torn down, which happens when
  \<^verbatim>\<open>isStarted\<close> changes), \<open>currentSettings\<close> the settings captured when the tick started.
  The result is the next state and the timer the \<^verbatim>\<open>finally\<close> block sets (\<open>Some 1000\<close>),
  if it sets one.
\<close>

definition pollN8N_finish ::
  "Browser \<Rightarrow> nat \<Rightarrow> bool \<Rightarrow> AppSettings \<Rightarrow> FetchOutcome \<Rightarrow> AppState \<Rightarrow> AppState \<times> nat option" where
  "pollN8N_finish br now isMounted currentSettings outcome st =
     (let st1 =
            (case outcome of
               Ok data \<Rightarrow> (if isMounted then applyPollData br now currentSettings data st else st)
             | AbortError \<Rightarrow> st
             | _ \<Rightarrow> (if isMounted then st\<lparr>n8nConnection := False\<rparr> else st))
      in (st1, (if isMounted then Some 1000 else None)))"

section \<open>Operations on the session\<close>

text \<open>
  Every mutation of the session is one of the commands below; JavaScript runs each
  handler, and each completion of an awaited request, to its end before the next one.
  \<^item> \<open>Completion ap\<close>: the \<^verbatim>\<open>onended\<close> handler, bound once to the \<^verbatim>\<open>handleAudioEnded\<close>
    of the render in which broadcasting started, whose \<^verbatim>\<open>settings.autoPlay\<close> is \<open>ap\<close>.
  \<^item> \<open>Skip\<close>, \<open>Stop\<close>, \<open>Clear\<close>, \<open>Remove\<close>, \<open>Play\<close>, \<open>StopItem\<close>, \<open>Reorder\<close>,
    \<open>ManualInject\<close>: the handlers of the control panel and of the queue view, created by
    the current render.
  \<^item> \<open>ChatInject\<close>: the arrival of a successful chat response with these events, for a
    message submitted by a render with the given settings.
  \<^item> \<open>PollResult\<close>: the arrival of a parsed poll response while the polling effect is
    mounted, for a tick that captured the given settings.
  \<^item> \<open>SaveSettings\<close>, \<open>ResetMatch\<close>: settings mutation and context reset.
\<close>

datatype Command =
    Completion bool
  | Skip
  | Stop
  | Clear
  | Remove string
  | Play string
  | StopItem string
  | Reorder "AudioItem list"
  | ManualInject nat string string
  | ChatInject Browser nat AppSettings "Event list"
  | PollResult Browser nat AppSettings PollData
  | SaveSettings AppSettings
  | ResetMatch

fun step :: "Command \<Rightarrow> AppState \<Rightarrow> AppState" where
  "step (Completion ap) st = st\<lparr>queue := handleAudioEnded ap (queue st)\<rparr>"
| "step Skip st = withSettingsQueue st (handleSkip (settings st) (queue st))"
| "step Stop st = withSettingsQueue st (handleStop (settings st) (queue st))"
| "step Clear st = st\<lparr>queue := handleClear (queue st)\<rparr>"
| "step (Remove ident) st =
     st\<lparr>queue := handleRemoveItem (autoPlay (settings st)) ident (queue st)\<rparr>"
| "step (Play ident) st = withSettingsQueue st (handleManualPlay (settings st) ident (queue st))"
| "step (StopItem ident) st = st\<lparr>queue := handleManualStopItem ident (queue st)\<rparr>"
| "step (Reorder newQueue) st = st\<lparr>queue := handleReorder newQueue (queue st)\<rparr>"
| "step (ManualInject now file_name objectUrl) st =
     withSettingsQueue st (handleManualUpload (settings st) now file_name objectUrl (queue st))"
| "step (ChatInject br now submitSettings evs) st =
     withSettingsQueue st (handleChatSubmit br now submitSettings evs (queue st))"
| "step (PollResult br now currentSettings data) st = applyPollData br now currentSettings data st"
| "step (SaveSettings newSettings) st = saveSettings newSettings st"
| "step ResetMatch st = handleResetMatch st"

text \<open>A reorder is given a permutation of the queue; every other command is always
  permitted.\<close>

fun permitted :: "Command \<Rightarrow> AppState \<Rightarrow> bool" where
  "permitted (Reorder newQueue) st = (mset newQueue = mset (queue st))"
| "permitted c st = True"

inductive reachable :: "AppState \<Rightarrow> bool" where
  init: "reachable (initialState s)"
| step: "reachable st \<Longrightarrow> permitted c st \<Longrightarrow> reachable (step c st)"

definition activeCount :: "AudioItem list \<Rightarrow> nat" where
  "activeCount q = length (filter isPlaying q)"

definition ids :: "AudioItem list \<Rightarrow> string list" where
  "ids q = map itemId q"

text \<open>The hint sent with a tick, when the tick sends a request.\<close>

fun sentSkipApi :: "PollStart \<Rightarrow> bool option" where
  "sentSkipApi (NoRequest t) = None"
| "sentSkipApi (Request currentSettings body) = Some (skipApi body)"

text \<open>
  A poll that overlaps a context switch: the tick starts, the operator saves settings
  (possibly for another match) while the request is in flight, then the request ends.
\<close>

definition pollAcrossSave ::
  "Browser \<Rightarrow> nat \<Rightarrow> AppSettings \<Rightarrow> FetchOutcome \<Rightarrow> AppState \<Rightarrow> AppState" where
  "pollAcrossSave br now newSettings outcome st =
     (case pollN8N_start True st of
        (st1, NoRequest t) \<Rightarrow> saveSettings newSettings st1
      | (st1, Request currentSettings body) \<Rightarrow>
          fst (pollN8N_finish br now True currentSettings outcome (saveSettings newSettings st1)))"

subsection \<open>Sample data\<close>

definition sampleSettings :: AppSettings where
  "sampleSettings =
     \<lparr>n8nUrl = ''https://n8n.example/webhook'', matchId = ''X'', persona = ''Funny'',
      dataProvider = ''api-football'', apiFootballKey = [], sportmonksKey = [],
      elevenLabsKey = [], openRouterKey = [], autoPlay = True, pollInterval = 3000,
      liveMatchUrl = []\<rparr>"

definition sampleBrowser :: Browser where
  "sampleBrowser = \<lparr>atob = (\<lambda>s. Some s), createObjectURL = (\<lambda>bytes. ''blob:'' @ bytes)\<rparr>"

definition itemA :: AudioItem where
  "itemA =
     \<lparr>itemId = ''a'', filename = ''ai_commentary_a.mp3'', source = AI, duration = ''Unknown'',
      timestamp = 0, status = PLAYING, description = ''Kick-off'', audioUrl = []\<rparr>"

definition itemB :: AudioItem where
  "itemB =
     \<lparr>itemId = ''b'', filename = ''ai_commentary_b.mp3'', source = AI, duration = ''Unknown'',
      timestamp = 1, status = QUEUED, description = ''Throw-in'', audioUrl = []\<rparr>"

definition eventA :: Event where
  "eventA = \<lparr>eventId = ''a'', eventDescription = ''Kick-off'', eventText = [], audioBase64 = []\<rparr>"

definition eventB :: Event where
  "eventB = \<lparr>eventId = ''b'', eventDescription = ''Throw-in'', eventText = [], audioBase64 = []\<rparr>"

definition eventGoal :: Event where
  "eventGoal =
     \<lparr>eventId = ''p'', eventDescription = ''Goal - Home'', eventText = [], audioBase64 = []\<rparr>"

definition eventCorner :: Event where
  "eventCorner =
     \<lparr>eventId = ''n'', eventDescription = ''Corner'', eventText = [], audioBase64 = []\<rparr>"

definition batchAB :: PollData where
  "batchAB = \<lparr>currentStats = None, events = [eventA, eventB]\<rparr>"

definition staleData :: PollData where
  "staleData = \<lparr>currentStats = Some ''stats-of-X'', events = [eventA, eventB]\<rparr>"

definition settingsY :: AppSettings where
  "settingsY = sampleSettings\<lparr>matchId := ''Y''\<rparr>"

lemmas sample_defs =
  sampleSettings_def sampleBrowser_def itemA_def itemB_def eventA_def eventB_def
  eventGoal_def eventCorner_def batchAB_def staleData_def settingsY_def

lemmas queue_defs =
  set_status_def splice_remove_def splice_insert_def isPlaying_def isQueued_def ids_def

lemmas poll_defs =
  applyPollData_def pollMerge_def decodeAudio_def pollItem_def orElse_def
  isImportant_def importantKeywords_def initialState_def Let_def

section \<open>Helper lemmas\<close>

lemma withSettingsQueue_simps [simp]:
  "queue (withSettingsQueue st r) = snd r"
  "settings (withSettingsQueue st r) = (case fst r of None \<Rightarrow> settings st | Some s \<Rightarrow> s)"
  "lastEventRef (withSettingsQueue st r) = lastEventRef st"
  "lastStatsRef (withSettingsQueue st r) = lastStatsRef st"
  "n8nConnection (withSettingsQueue st r) = n8nConnection st"
  "pollCountRef (withSettingsQueue st r) = pollCountRef st"
  by (simp_all add: withSettingsQueue_def split: option.splits)

lemma activeCount_simps [simp]:
  "activeCount [] = 0"
  "activeCount (x # xs) = (if status x = PLAYING then Suc (activeCount xs) else activeCount xs)"
  "activeCount (xs @ ys) = activeCount xs + activeCount ys"
  by (simp_all add: activeCount_def isPlaying_def)

lemma activeCount_zero_iff: "activeCount q = 0 \<longleftrightarrow> (\<forall>x\<in>set q. status x \<noteq> PLAYING)"
  by (induction q) auto

lemma findIndex_None_iff: "findIndex P xs = None \<longleftrightarrow> (\<forall>x\<in>set xs. \<not> P x)"
  by (induction xs) (auto split: option.splits)

lemma findIndex_Some_split:
  "findIndex P xs = Some i \<Longrightarrow>
     \<exists>pre x post. xs = pre @ x # post \<and> length pre = i \<and> P x \<and> (\<forall>y\<in>set pre. \<not> P y)"
proof (induction xs arbitrary: i)
  case Nil
  then show ?case by simp
next
  case (Cons a xs)
  show ?case
  proof (cases "P a")
    case True
    with Cons.prems have "i = 0" by simp
    with True show ?thesis by (intro exI[of _ "[]"] exI[of _ a] exI[of _ xs]) simp
  next
    case False
    with Cons.prems obtain j where j: "findIndex P xs = Some j" "i = Suc j"
      by (auto split: option.splits)
    from Cons.IH[OF j(1)] obtain pre x post where
      "xs = pre @ x # post" "length pre = j" "P x" "\<forall>y\<in>set pre. \<not> P y" by blast
    with False j(2) show ?thesis
      by (intro exI[of _ "a # pre"] exI[of _ x] exI[of _ post]) simp
  qed
qed

lemma set_status_append_at:
  "set_status (length pre) s (pre @ x # post) = pre @ x\<lparr>status := s\<rparr> # post"
  by (simp add: set_status_def)

lemma splice_remove_append_at:
  "splice_remove (length pre) (pre @ x # post) = pre @ post"
  by (simp add: splice_remove_def)

lemma splice_insert_append_at:
  "splice_insert (Suc (length pre)) ys (pre @ x # post) = pre @ x # ys @ post"
  by (simp add: splice_insert_def)

lemma activeCount_set_status_PLAYING:
  "activeCount q = 0 \<Longrightarrow> activeCount (set_status n PLAYING q) \<le> 1"
proof (induction q arbitrary: n)
  case Nil
  then show ?case by (simp add: set_status_def)
next
  case (Cons a q)
  show ?case
  proof (cases n)
    case 0
    with Cons.prems show ?thesis by (simp add: set_status_def split: if_splits)
  next
    case (Suc m)
    from Cons.prems have "activeCount q = 0" "status a \<noteq> PLAYING" by (auto split: if_splits)
    with Cons.IH[of m] Suc show ?thesis by (simp add: set_status_def)
  qed
qed

lemma activeCount_filter_le: "activeCount (filter P q) \<le> activeCount q"
  by (induction q) auto

lemma handleAudioEnded_single:
  assumes "activeCount prev \<le> 1"
  shows "activeCount (handleAudioEnded ap prev) \<le> 1"
proof (cases "findIndex isPlaying prev")
  case None
  then show ?thesis using assms by (simp add: handleAudioEnded_def)
next
  case (Some i)
  from findIndex_Some_split[OF Some] obtain pre x post where
    s: "prev = pre @ x # post" "length pre = i" "isPlaying x" by blast
  with assms have z: "activeCount (pre @ post) = 0" by (simp add: isPlaying_def)
  have nq: "splice_remove i (set_status i COMPLETED prev) = pre @ post"
    using s set_status_append_at[of pre COMPLETED x post] splice_remove_append_at[of pre _ post]
    by simp
  show ?thesis
    using Some nq z activeCount_set_status_PLAYING[OF z, of 0]
    by (simp add: handleAudioEnded_def Let_def)
qed


lemma find_isPlaying_None_iff: "find isPlaying q = None \<longleftrightarrow> activeCount q = 0"
  by (induction q) (auto simp: isPlaying_def)

lemma find_isPlaying_Some: "find isPlaying q = Some p \<Longrightarrow> status p = PLAYING"
  by (induction q) (auto simp: isPlaying_def split: if_splits)

lemma activeCount_waiting [simp]: "activeCount (filter (\<lambda>i. status i \<noteq> PLAYING) q) = 0"
  by (induction q) auto

lemma handleStop_single: "activeCount (snd (handleStop s q)) = 0"
  by (induction q) (auto simp: handleStop_def)

lemma handleClear_single: "activeCount (handleClear q) \<le> activeCount q"
  by (simp add: handleClear_def activeCount_filter_le)

lemma handleRemoveItem_single:
  assumes "activeCount q \<le> 1"
  shows "activeCount (handleRemoveItem ap ident q) \<le> 1"
proof -
  let ?nq = "filter (\<lambda>i. itemId i \<noteq> ident) q"
  have le: "activeCount ?nq \<le> 1" using assms activeCount_filter_le[of _ q] by (meson le_trans)
  show ?thesis
  proof (cases "find isPlaying ?nq = None")
    case True
    then have "activeCount ?nq = 0" by (simp add: find_isPlaying_None_iff)
    from activeCount_set_status_PLAYING[OF this, of 0] le show ?thesis
      by (simp add: handleRemoveItem_def Let_def)
  next
    case False
    with le show ?thesis by (auto simp: handleRemoveItem_def Let_def)
  qed
qed

lemma activeCount_demote [simp]:
  "activeCount (map (\<lambda>i. i\<lparr>status := (if status i = PLAYING then QUEUED else status i)\<rparr>) q) = 0"
  by (induction q) auto

lemma handleManualPlay_single:
  assumes "activeCount q \<le> 1"
  shows "activeCount (snd (handleManualPlay s ident q)) \<le> 1"
  using assms by (simp add: handleManualPlay_def Let_def split: option.splits)

lemma activeCount_map_complete:
  "activeCount (map (\<lambda>i. if P i then i\<lparr>status := COMPLETED\<rparr> else i) q) \<le> activeCount q"
  by (induction q) auto

lemma handleManualStopItem_single: "activeCount (handleManualStopItem ident q) \<le> activeCount q"
  by (simp add: handleManualStopItem_def activeCount_map_complete split: option.splits)

lemma activeCount_mset: "mset xs = mset ys \<Longrightarrow> activeCount xs = activeCount ys"
proof -
  assume "mset xs = mset ys"
  then have "mset (filter isPlaying xs) = mset (filter isPlaying ys)" by (simp only: mset_filter)
  then have "length (filter isPlaying xs) = length (filter isPlaying ys)" by (rule mset_eq_length)
  then show ?thesis by (simp add: activeCount_def)
qed

lemma insertAtTop_single:
  assumes "activeCount newItems = 0"
  shows "activeCount (insertAtTop newItems prev) \<le> 1"
proof (cases "find isPlaying prev")
  case None
  have "activeCount (newItems @ filter (\<lambda>i. status i \<noteq> PLAYING) prev) = 0"
    using assms by simp
  from activeCount_set_status_PLAYING[OF this, of 0] None show ?thesis
    by (simp add: insertAtTop_def)
next
  case (Some p)
  with assms find_isPlaying_Some[OF Some] show ?thesis by (simp add: insertAtTop_def)
qed

lemma chatItems_queued: "activeCount (chatItems br now evs) = 0"
  by (induction evs) (auto simp: chatItem_def split: option.splits)

lemma processEvents_queued:
  "activeCount (snd acc) = 0 \<Longrightarrow> activeCount (snd (processEvents br now evs acc)) = 0"
  by (induction br now evs acc rule: processEvents.induct)
     (auto simp: pollItem_def split: option.splits)

lemma handleManualUpload_single: "activeCount (snd (handleManualUpload s now n u q)) \<le> 1"
  using insertAtTop_single[of "[manualItem now n u]" q]
  by (simp add: handleManualUpload_def manualItem_def)

lemma handleChatSubmit_single:
  "activeCount q \<le> 1 \<Longrightarrow> activeCount (snd (handleChatSubmit br now s evs q)) \<le> 1"
  using insertAtTop_single[OF chatItems_queued, of br now evs q]
  by (simp add: handleChatSubmit_def Let_def)

lemma list_ex_isPlaying_iff: "list_ex isPlaying q \<longleftrightarrow> activeCount q \<noteq> 0"
  by (induction q) (auto simp: isPlaying_def)

lemma pollMerge_single:
  assumes "activeCount prev \<le> 1" and "activeCount newItems = 0"
  shows "activeCount (snd (pollMerge cs newItems prev)) \<le> 1"
proof -
  let ?pri = "filter isImportant newItems"
  let ?nor = "filter (\<lambda>i. \<not> isImportant i) newItems"
  have pri0: "activeCount ?pri = 0" and nor0: "activeCount ?nor = 0"
    using assms(2) activeCount_filter_le[of _ newItems] by (metis le_zero_eq)+
  define inserted where "inserted =
     (case findIndex isPlaying prev of
        Some i \<Rightarrow> splice_insert (i + 1) ?pri prev
      | None \<Rightarrow> set_status 0 PLAYING ?pri @ prev)"
  have ins: "activeCount inserted \<le> 1"
  proof (cases "findIndex isPlaying prev")
    case None
    then have "activeCount prev = 0"
      by (simp add: findIndex_None_iff activeCount_zero_iff isPlaying_def)
    with activeCount_set_status_PLAYING[OF pri0, of 0] None show ?thesis
      by (simp add: inserted_def)
  next
    case (Some i)
    from findIndex_Some_split[OF Some] obtain pre x post where
      s: "prev = pre @ x # post" "length pre = i" by blast
    have "inserted = pre @ x # ?pri @ post"
      using Some s splice_insert_append_at[of pre ?pri x post] by (simp add: inserted_def)
    with assms(1) s(1) pri0 show ?thesis by (simp split: if_splits)
  qed
  define uq where "uq = (if length ?pri > 0 then inserted @ ?nor else prev @ newItems)"
  have uq: "activeCount uq \<le> 1"
    using ins nor0 assms by (simp add: uq_def)
  have promote: "activeCount (set_status n PLAYING uq) \<le> 1" if "\<not> list_ex isPlaying uq" for n
    using that activeCount_set_status_PLAYING[of uq n] by (simp add: list_ex_isPlaying_iff)
  have "snd (pollMerge cs newItems prev) =
          (if \<not> list_ex isPlaying uq \<and> autoPlay cs
           then (case findIndex isQueued uq of Some n \<Rightarrow> set_status n PLAYING uq | None \<Rightarrow> uq)
           else uq)"
    by (simp add: pollMerge_def Let_def uq_def inserted_def split: option.splits)
  with uq promote show ?thesis by (simp split: option.splits)
qed

lemma applyPollData_single:
  assumes "activeCount (queue st) \<le> 1"
  shows "activeCount (queue (applyPollData br now cs d st)) \<le> 1"
proof -
  have q: "activeCount (snd (processEvents br now evs (l, []))) = 0" for evs l
    by (rule processEvents_queued) simp
  have m: "activeCount (snd (pollMerge cs (snd (processEvents br now evs (l, []))) (queue st))) \<le> 1"
    for evs l
    by (rule pollMerge_single[OF assms q])
  show ?thesis
    using assms m[of "events d" "lastEventRef st"]
    by (auto simp: applyPollData_def Let_def split: option.splits prod.splits)
qed

lemma step_single:
  assumes "activeCount (queue st) \<le> 1" and "permitted c st"
  shows "activeCount (queue (step c st)) \<le> 1"
proof (cases c)
  case (Completion ap)
  then show ?thesis using handleAudioEnded_single[OF assms(1)] by simp
next
  case Skip
  then show ?thesis using handleAudioEnded_single[OF assms(1)]
    by (simp add: handleSkip_def)
next
  case Stop
  then show ?thesis using handleStop_single[of "settings st" "queue st"]
    by simp
next
  case Clear
  then show ?thesis using handleClear_single[of "queue st"] assms(1) by simp
next
  case (Remove x)
  then show ?thesis using handleRemoveItem_single[OF assms(1)] by simp
next
  case (Play x)
  then show ?thesis using handleManualPlay_single[OF assms(1)]
    by simp
next
  case (StopItem x)
  then show ?thesis using handleManualStopItem_single[of x "queue st"] assms(1) by simp
next
  case (Reorder nq)
  then show ?thesis using assms activeCount_mset[of nq "queue st"]
    by (simp add: handleReorder_def)
next
  case (ManualInject now n u)
  then show ?thesis using handleManualUpload_single by simp
next
  case (ChatInject br now cs evs)
  then show ?thesis using handleChatSubmit_single[OF assms(1)]
    by simp
next
  case (PollResult br now cs d)
  then show ?thesis using applyPollData_single[OF assms(1)] by simp
next
  case (SaveSettings ns)
  then show ?thesis using assms(1) by (simp add: saveSettings_def Let_def)
next
  case ResetMatch
  then show ?thesis by (simp add: handleResetMatch_def)
qed

section \<open>The single-active invariant\<close>

text \<open>
  Claim C1. Starting from the empty queue of a new session, after any sequence of poll
  merges and commands (completion, skip, stop, clear, remove, explicit play, explicit
  stop, reorder with a permutation, manual inject, chat inject, and also settings changes
  and context resets), the queue holds at most one item whose status is PLAYING.
\<close>

theorem single_active_invariant:
  "reachable st \<Longrightarrow> activeCount (queue st) \<le> 1"
proof (induction rule: reachable.induct)
  case (init s)
  show ?case by (simp add: initialState_def)
next
  case (step st c)
  then show ?case using step_single by blast
qed

theorem single_active_invariant_witness:
  "reachable (step Skip (step (ManualInject 1 ''b.mp3'' ''blob:b'')
       (step (ManualInject 0 ''a.mp3'' ''blob:a'') (initialState sampleSettings))))
   \<and> activeCount (queue (step Skip (step (ManualInject 1 ''b.mp3'' ''blob:b'')
       (step (ManualInject 0 ''a.mp3'' ''blob:a'') (initialState sampleSettings))))) \<le> 1"
proof -
  have r: "reachable (step Skip (step (ManualInject 1 ''b.mp3'' ''blob:b'')
       (step (ManualInject 0 ''a.mp3'' ''blob:a'') (initialState sampleSettings))))"
    by (intro reachable.step reachable.init) simp_all
  from single_active_invariant[OF r] r show ?thesis by simp
qed

section \<open>Deduplication of polled events\<close>

text \<open>An event whose id is the cursor is dropped, so a batch of one event that is sent
  again at once enters the queue once.\<close>

lemma cursor_rejects_immediate_resend:
  "processEvents br now [event] (eventId event, newItems) = (eventId event, newItems)"
  by simp

text \<open>
  Claim C2. The claim: a polled event is accepted only if its id is neither the id of an
  item in the queue nor the cursor \<^verbatim>\<open>lastEventRef\<close>, so that the same id sent in two
  consecutive batches enters the queue once. The loop over the events compares each id
  with the cursor only, and moves the cursor at every accepted event. When the source
  sends the batch with the events \<open>a\<close>, \<open>b\<close> twice in a row, the cursor is \<open>b\<close> when the
  second batch arrives, \<open>a\<close> is accepted again, the cursor becomes \<open>a\<close>, and \<open>b\<close> is
  accepted again: both ids are in the queue twice.
\<close>

theorem poll_resend_enters_twice:
  "ids (queue (applyPollData sampleBrowser 1 sampleSettings batchAB
          (applyPollData sampleBrowser 0 sampleSettings batchAB
             (initialState sampleSettings)))) = [''a'', ''b'', ''a'', ''b'']"
  by (simp add: poll_defs sample_defs queue_defs)

section \<open>Priority ordering\<close>

lemma findIndex_append_at:
  "\<forall>y\<in>set pre. \<not> P y \<Longrightarrow> P x \<Longrightarrow> findIndex P (pre @ x # post) = Some (length pre)"
  by (induction pre) auto

lemma applyPollData_queue:
  assumes "events d \<noteq> []"
    and "processEvents br now (events d) (lastEventRef st, []) = (l, newItems)"
    and "newItems \<noteq> []"
  shows "queue (applyPollData br now cs d st) = snd (pollMerge cs newItems (queue st))"
  using assms
  by (cases "currentStats d")
     (simp_all add: applyPollData_def Let_def del: processEvents.simps)

text \<open>
  Claim C3. The queue holds exactly one PLAYING item \<open>A\<close> (anywhere in the queue), and a
  poll response brings two events that pass the duplicate check and whose audio decodes:
  first \<open>eP\<close>, whose item carries one of the keywords, then \<open>eN\<close>, whose item carries
  none. After the merge the priority item stands directly behind \<open>A\<close> and the normal item
  at the tail; for the queue that holds only \<open>A\<close> the result is \<open>A, P, N\<close>.
\<close>

theorem priority_ordering:
  assumes q: "queue st = pre @ A # post"
    and A: "status A = PLAYING"
    and one: "activeCount (queue st) = 1"
    and batch: "events d = [eP, eN]"
    and fresh: "eventId eP \<noteq> lastEventRef st" "eventId eN \<noteq> eventId eP"
    and audio: "decodeAudio br eP = Some uP" "decodeAudio br eN = Some uN"
    and prio: "isImportant (pollItem now eP uP)" "\<not> isImportant (pollItem now eN uN)"
  shows "queue (applyPollData br now cs d st)
           = pre @ A # pollItem now eP uP # post @ [pollItem now eN uN]"
proof -
  let ?P = "pollItem now eP uP" and ?N = "pollItem now eN uN"
  have pe: "processEvents br now [eP, eN] (l, []) = (eventId eN, [?P, ?N])"
    if "eventId eP \<noteq> l" for l
    using that fresh(2) audio by simp
  from q A one have "activeCount pre = 0" by simp
  then have pre: "\<forall>y\<in>set pre. \<not> isPlaying y"
    by (simp add: activeCount_zero_iff isPlaying_def)
  have pA: "isPlaying A" using A by (simp add: isPlaying_def)
  have idx: "findIndex isPlaying (pre @ A # post) = Some (length pre)"
    by (rule findIndex_append_at[OF pre pA])
  have ex: "list_ex isPlaying (pre @ A # ?P # post @ [?N])"
    using A by (simp add: isPlaying_def)
  have merge: "snd (pollMerge cs [?P, ?N] (pre @ A # post)) = pre @ A # ?P # post @ [?N]"
    using prio idx ex splice_insert_append_at[of pre "[?P]" A post]
    by (simp add: pollMerge_def Let_def)
  have "queue (applyPollData br now cs d st) = snd (pollMerge cs [?P, ?N] (queue st))"
    using batch pe[OF fresh(1)] by (intro applyPollData_queue[where l = "eventId eN"]) simp_all
  with merge q show ?thesis by simp
qed


theorem priority_ordering_witness:
  "status itemA = PLAYING
   \<and> isImportant (pollItem 1 eventGoal []) \<and> \<not> isImportant (pollItem 1 eventCorner [])
   \<and> queue (applyPollData sampleBrowser 1 sampleSettings
          \<lparr>currentStats = None, events = [eventGoal, eventCorner]\<rparr>
          ((initialState sampleSettings)\<lparr>queue := [itemA]\<rparr>))
       = [itemA, pollItem 1 eventGoal [], pollItem 1 eventCorner []]"
proof -
  let ?st = "(initialState sampleSettings)\<lparr>queue := [itemA]\<rparr>"
  let ?d = "\<lparr>currentStats = None, events = [eventGoal, eventCorner]\<rparr>"
  have h1: "queue ?st = [] @ itemA # []" by simp
  have h2: "status itemA = PLAYING" by (simp add: itemA_def)
  have h3: "activeCount (queue ?st) = 1" by (simp add: itemA_def)
  have h4: "events ?d = [eventGoal, eventCorner]" by simp
  have h5: "eventId eventGoal \<noteq> lastEventRef ?st"
    by (simp add: eventGoal_def initialState_def)
  have h6: "eventId eventCorner \<noteq> eventId eventGoal"
    by (simp add: eventGoal_def eventCorner_def)
  have h7: "decodeAudio sampleBrowser eventGoal = Some []"
    by (simp add: decodeAudio_def eventGoal_def)
  have h8: "decodeAudio sampleBrowser eventCorner = Some []"
    by (simp add: decodeAudio_def eventCorner_def)
  have h9: "isImportant (pollItem 1 eventGoal [])"
    by (simp add: isImportant_def importantKeywords_def pollItem_def orElse_def eventGoal_def)
  have h10: "\<not> isImportant (pollItem 1 eventCorner [])"
    by (simp add: isImportant_def importantKeywords_def pollItem_def orElse_def eventCorner_def)
  from priority_ordering[OF h1 h2 h3 h4 h5 h6 h7 h8 h9 h10, of sampleSettings] h2 h9 h10
  show ?thesis by simp
qed

section \<open>Skip and stop\<close>

lemma skip_autoplay_on:
  assumes "queue st = [A, B]" and "status A = PLAYING" and "autoPlay (settings st)"
  shows "step Skip st = st\<lparr>queue := [B\<lparr>status := PLAYING\<rparr>]\<rparr>"
  using assms
  by (simp add: withSettingsQueue_def handleSkip_def enableAutoPlay_def handleAudioEnded_def
      queue_defs)

lemma skip_autoplay_off:
  assumes "queue st = [A, B]" and "status A = PLAYING" and "\<not> autoPlay (settings st)"
  shows "step Skip st = st\<lparr>settings := (settings st)\<lparr>autoPlay := True\<rparr>, queue := [B]\<rparr>"
  using assms
  by (simp add: withSettingsQueue_def handleSkip_def enableAutoPlay_def handleAudioEnded_def
      queue_defs)

text \<open>
  Claim C4. The claim: with a PLAYING item \<open>A\<close> and a QUEUED item \<open>B\<close>, skip prunes
  \<open>A\<close>, promotes \<open>B\<close> to PLAYING and leaves auto-play on, also when auto-play was off
  before. With auto-play off the updater of \<^verbatim>\<open>handleAudioEnded\<close> still reads the
  settings of the render that handled the click: \<open>A\<close> is pruned, auto-play is switched
  on, and \<open>B\<close> stays QUEUED. (With auto-play on, \<open>skip_autoplay_on\<close> gives the promotion.)
\<close>

theorem skip_autoplay_off_leaves_successor_queued:
  "status itemA = PLAYING \<and> status itemB = QUEUED
   \<and> queue (step Skip ((initialState (sampleSettings\<lparr>autoPlay := False\<rparr>))
          \<lparr>queue := [itemA, itemB]\<rparr>)) = [itemB]
   \<and> autoPlay (settings (step Skip ((initialState (sampleSettings\<lparr>autoPlay := False\<rparr>))
          \<lparr>queue := [itemA, itemB]\<rparr>))) = True"
  by (simp add: withSettingsQueue_def handleSkip_def enableAutoPlay_def handleAudioEnded_def
      initialState_def queue_defs sample_defs)

text \<open>
  Claim C5, as stated: after stop the item \<open>A\<close> that was PLAYING is pruned. It is not:
  the queue keeps \<open>A\<close>, marked COMPLETED, in its place.
\<close>

theorem stop_does_not_prune:
  "status itemA = PLAYING \<and> status itemB = QUEUED
   \<and> queue (step Stop ((initialState sampleSettings)\<lparr>queue := [itemA, itemB]\<rparr>))
       = [itemA\<lparr>status := COMPLETED\<rparr>, itemB]
   \<and> itemId itemA
       \<in> set (ids (queue (step Stop ((initialState sampleSettings)\<lparr>queue := [itemA, itemB]\<rparr>))))"
  by (simp add: withSettingsQueue_def handleStop_def initialState_def queue_defs sample_defs)

lemma ids_handleStop: "ids (snd (handleStop s q)) = ids q"
  by (induction q) (auto simp: handleStop_def ids_def)

text \<open>
  Claim C5, amended. For every queue that contains a PLAYING item \<open>A\<close> and a QUEUED item
  \<open>B\<close>, after stop the queue contains \<open>A\<close> marked COMPLETED (it is kept, not pruned),
  \<open>B\<close> is still in the queue and still QUEUED, the ids of the queue and their order are
  unchanged, no item is PLAYING, and auto-play is off.
\<close>

theorem stop_semantics:
  assumes "A \<in> set (queue st)" and "status A = PLAYING"
    and "B \<in> set (queue st)" and "status B = QUEUED"
  shows "A\<lparr>status := COMPLETED\<rparr> \<in> set (queue (step Stop st))
         \<and> B \<in> set (queue (step Stop st))
         \<and> ids (queue (step Stop st)) = ids (queue st)
         \<and> activeCount (queue (step Stop st)) = 0
         \<and> \<not> autoPlay (settings (step Stop st))"
proof -
  let ?f = "\<lambda>item. if status item = PLAYING then item\<lparr>status := COMPLETED\<rparr> else item"
  have q': "queue (step Stop st) = snd (handleStop (settings st) (queue st))"
    by (simp add: withSettingsQueue_def handleStop_def)
  have m: "snd (handleStop (settings st) (queue st)) = map ?f (queue st)"
    by (simp add: handleStop_def)
  have "?f A \<in> ?f ` set (queue st)" using assms(1) by (rule imageI)
  then have a: "A\<lparr>status := COMPLETED\<rparr> \<in> set (queue (step Stop st))"
    using assms(2) q' m by simp
  have "?f B \<in> ?f ` set (queue st)" using assms(3) by (rule imageI)
  then have b: "B \<in> set (queue (step Stop st))" using assms(4) q' m by simp
  have c: "\<not> autoPlay (settings (step Stop st))"
    by (simp add: withSettingsQueue_def handleStop_def)
  have d: "ids (queue (step Stop st)) = ids (queue st)"
    unfolding q' by (rule ids_handleStop)
  have e: "activeCount (queue (step Stop st)) = 0"
    unfolding q' by (rule handleStop_single)
  from a b c d e show ?thesis by blast
qed

theorem stop_semantics_witness:
  "itemA \<in> set (queue ((initialState sampleSettings)\<lparr>queue := [itemA, itemB]\<rparr>))
   \<and> status itemA = PLAYING
   \<and> itemB \<in> set (queue ((initialState sampleSettings)\<lparr>queue := [itemA, itemB]\<rparr>))
   \<and> status itemB = QUEUED
   \<and> itemA\<lparr>status := COMPLETED\<rparr>
       \<in> set (queue (step Stop ((initialState sampleSettings)\<lparr>queue := [itemA, itemB]\<rparr>)))
   \<and> itemB \<in> set (queue (step Stop ((initialState sampleSettings)\<lparr>queue := [itemA, itemB]\<rparr>)))
   \<and> activeCount (queue (step Stop ((initialState sampleSettings)\<lparr>queue := [itemA, itemB]\<rparr>))) = 0
   \<and> \<not> autoPlay (settings (step Stop ((initialState sampleSettings)\<lparr>queue := [itemA, itemB]\<rparr>)))"
proof -
  let ?st = "(initialState sampleSettings)\<lparr>queue := [itemA, itemB]\<rparr>"
  have h1: "itemA \<in> set (queue ?st)" and h3: "itemB \<in> set (queue ?st)" by simp_all
  have h2: "status itemA = PLAYING" by (simp add: itemA_def)
  have h4: "status itemB = QUEUED" by (simp add: itemB_def)
  from stop_semantics[OF h1 h2 h3 h4] h1 h2 h3 h4 show ?thesis by blast
qed

section \<open>Uniqueness of ids\<close>

text \<open>
  Claim C7, as stated: the ids of the items of a reachable queue are pairwise distinct.
  Chat injection compares no ids: two chat responses that carry an event with the same id
  leave two items with that id in the queue.
\<close>

theorem chat_inserts_live_id:
  "reachable (step (ChatInject sampleBrowser 1 sampleSettings [eventA])
       (step (ChatInject sampleBrowser 0 sampleSettings [eventA]) (initialState sampleSettings)))
   \<and> ids (queue (step (ChatInject sampleBrowser 1 sampleSettings [eventA])
       (step (ChatInject sampleBrowser 0 sampleSettings [eventA]) (initialState sampleSettings)))) = [''a'', ''a'']"
proof -
  have r: "reachable (step (ChatInject sampleBrowser 1 sampleSettings [eventA])
       (step (ChatInject sampleBrowser 0 sampleSettings [eventA]) (initialState sampleSettings)))"
    by (intro reachable.step reachable.init) simp_all
  have "ids (queue (step (ChatInject sampleBrowser 1 sampleSettings [eventA])
       (step (ChatInject sampleBrowser 0 sampleSettings [eventA]) (initialState sampleSettings)))) = [''a'', ''a'']"
    by (simp add: handleChatSubmit_def insertAtTop_def chatItem_def
        decodeAudio_def orElse_def initialState_def Let_def sample_defs queue_defs)
  with r show ?thesis by simp
qed

lemma ids_simps [simp]:
  "ids [] = []" "ids (x # xs) = itemId x # ids xs" "ids (xs @ ys) = ids xs @ ids ys"
  by (simp_all add: ids_def)

lemma ids_set_status [simp]: "ids (set_status n s q) = ids q"
  by (simp add: ids_def set_status_def map_update) (metis list_update_id map_update)

lemma ids_filter_distinct: "distinct (ids q) \<Longrightarrow> distinct (ids (filter P q))"
  by (simp add: ids_def distinct_map_filter)

lemma ids_map_same: "(\<And>i. itemId (f i) = itemId i) \<Longrightarrow> ids (map f q) = ids q"
  by (simp add: ids_def)

lemma handleAudioEnded_distinct:
  assumes "distinct (ids q)"
  shows "distinct (ids (handleAudioEnded ap q))"
proof (cases "findIndex isPlaying q")
  case None
  with assms show ?thesis by (simp add: handleAudioEnded_def)
next
  case (Some i)
  from findIndex_Some_split[OF Some] obtain pre x post where
    s: "q = pre @ x # post" "length pre = i" by blast
  have nq: "splice_remove i (set_status i COMPLETED q) = pre @ post"
    using s set_status_append_at[of pre COMPLETED x post] splice_remove_append_at[of pre _ post]
    by simp
  from assms s(1) have "distinct (ids (pre @ post))" by simp
  with Some nq show ?thesis by (simp add: handleAudioEnded_def Let_def)
qed

lemma handleRemoveItem_distinct:
  "distinct (ids q) \<Longrightarrow> distinct (ids (handleRemoveItem ap ident q))"
  by (simp add: handleRemoveItem_def Let_def ids_filter_distinct)

lemma handleManualPlay_distinct:
  assumes "distinct (ids q)"
  shows "distinct (ids (snd (handleManualPlay s ident q)))"
proof (cases "find (\<lambda>i. itemId i = ident) q")
  case None
  with assms show ?thesis by (simp add: handleManualPlay_def)
next
  case (Some p)
  then have p: "itemId p = ident" by (auto simp: find_Some_iff)
  let ?others = "filter (\<lambda>i. itemId i \<noteq> ident) q"
  have "ids (map (\<lambda>i. i\<lparr>status := (if status i = PLAYING then QUEUED else status i)\<rparr>) ?others)
          = ids ?others"
    by (rule ids_map_same) simp
  moreover have "ident \<notin> set (ids ?others)" by (auto simp: ids_def)
  moreover have "distinct (ids ?others)" using assms by (rule ids_filter_distinct)
  ultimately show ?thesis using Some p by (simp add: handleManualPlay_def Let_def)
qed

lemma handleManualStopItem_distinct:
  "distinct (ids q) \<Longrightarrow> distinct (ids (handleManualStopItem ident q))"
proof -
  have "ids (map (\<lambda>i. if itemId i = ident then i\<lparr>status := COMPLETED\<rparr> else i) q) = ids q"
    by (rule ids_map_same) simp
  then show "distinct (ids q) \<Longrightarrow> ?thesis"
    by (simp add: handleManualStopItem_def split: option.splits)
qed

lemma reorder_distinct:
  assumes "distinct (ids q)" and "mset newQueue = mset q"
  shows "distinct (ids (handleReorder newQueue q))"
proof -
  from assms(2) have "image_mset itemId (mset newQueue) = image_mset itemId (mset q)"
    by simp
  then have "mset (ids newQueue) = mset (ids q)"
    by (simp add: ids_def)
  then have "distinct (ids newQueue) = distinct (ids q)"
    by (rule mset_eq_imp_distinct_iff)
  with assms(1) show ?thesis
    by (simp add: handleReorder_def)
qed

lemma insertAtTop_distinct:
  assumes q: "distinct (ids q)" and n: "distinct (ids newItems)"
    and d: "set (ids newItems) \<inter> set (ids q) = {}"
  shows "distinct (ids (insertAtTop newItems q))"
proof -
  let ?w = "filter (\<lambda>i. status i \<noteq> PLAYING) q"
  have w: "distinct (ids ?w)" using q by (rule ids_filter_distinct)
  have sub: "set (ids ?w) \<subseteq> set (ids q)" by (auto simp: ids_def)
  with d have dw: "set (ids newItems) \<inter> set (ids ?w) = {}" by blast
  show ?thesis
  proof (cases "find isPlaying q")
    case None
    with n w dw show ?thesis by (simp add: insertAtTop_def)
  next
    case (Some p)
    then have pq: "p \<in> set q" and pp: "status p = PLAYING"
      by (auto simp: find_Some_iff isPlaying_def)
    from q have inj: "inj_on itemId (set q)" by (simp add: ids_def distinct_map)
    have "itemId p \<notin> set (ids ?w)"
    proof
      assume "itemId p \<in> set (ids ?w)"
      then obtain x where x: "x \<in> set q" "status x \<noteq> PLAYING" "itemId x = itemId p"
        by (auto simp: ids_def)
      with inj pq have "x = p" by (auto dest: inj_onD)
      with x(2) pp show False by simp
    qed
    moreover have "itemId p \<notin> set (ids newItems)" using d pq by (auto simp: ids_def)
    ultimately show ?thesis using Some n w dw by (simp add: insertAtTop_def)
  qed
qed

text \<open>
  Claim C7, amended. In a queue whose ids are pairwise distinct they stay so under
  completion, skip, stop, clear, remove, explicit play, explicit stop and a reorder with a
  permutation. Manual injection and chat injection insert without comparing ids: the ids
  stay distinct when the generated id of the upload is not in the queue, respectively when
  the ids of the chat items are pairwise distinct and none of them is in the queue.
\<close>

theorem ids_stay_distinct:
  assumes "distinct (ids q)"
  shows "distinct (ids (handleAudioEnded ap q))
       \<and> distinct (ids (snd (handleSkip s q)))
       \<and> distinct (ids (snd (handleStop s q)))
       \<and> distinct (ids (handleClear q))
       \<and> distinct (ids (handleRemoveItem ap ident q))
       \<and> distinct (ids (snd (handleManualPlay s ident q)))
       \<and> distinct (ids (handleManualStopItem ident q))
       \<and> (mset newQueue = mset q \<longrightarrow> distinct (ids (handleReorder newQueue q)))
       \<and> (''manual_'' @ string_of_nat now \<notin> set (ids q)
            \<longrightarrow> distinct (ids (snd (handleManualUpload s now file_name objectUrl q))))
       \<and> (distinct (ids (chatItems br now evs)) \<and> set (ids (chatItems br now evs)) \<inter> set (ids q) = {}
            \<longrightarrow> distinct (ids (snd (handleChatSubmit br now s evs q))))"
proof -
  have manual: "distinct (ids (snd (handleManualUpload s now file_name objectUrl q)))"
    if "''manual_'' @ string_of_nat now \<notin> set (ids q)"
    using insertAtTop_distinct[OF assms, of "[manualItem now file_name objectUrl]"] that
    by (simp add: handleManualUpload_def manualItem_def)
  have chat: "distinct (ids (snd (handleChatSubmit br now s evs q)))"
    if "distinct (ids (chatItems br now evs))"
      and "set (ids (chatItems br now evs)) \<inter> set (ids q) = {}"
    using insertAtTop_distinct[OF assms that] assms by (simp add: handleChatSubmit_def Let_def)
  have skip: "distinct (ids (snd (handleSkip s q)))"
    using handleAudioEnded_distinct[OF assms] by (simp add: handleSkip_def)
  have stop: "distinct (ids (snd (handleStop s q)))"
    using assms by (simp only: ids_handleStop)
  have clear: "distinct (ids (handleClear q))"
    using assms by (simp only: handleClear_def ids_filter_distinct)
  have reorder: "mset newQueue = mset q \<longrightarrow> distinct (ids (handleReorder newQueue q))"
    using reorder_distinct[OF assms] by blast
  from handleAudioEnded_distinct[OF assms] skip stop clear handleRemoveItem_distinct[OF assms]
    handleManualPlay_distinct[OF assms] handleManualStopItem_distinct[OF assms]
    reorder manual chat
  show ?thesis by blast
qed

theorem ids_stay_distinct_witness:
  "distinct (ids [itemA, itemB])
   \<and> mset [itemB, itemA] = mset [itemA, itemB]
   \<and> ''manual_'' @ string_of_nat 7 \<notin> set (ids [itemA, itemB])
   \<and> distinct (ids (chatItems sampleBrowser 7 [eventGoal]))
   \<and> set (ids (chatItems sampleBrowser 7 [eventGoal])) \<inter> set (ids [itemA, itemB]) = {}
   \<and> distinct (ids (handleAudioEnded True [itemA, itemB]))
   \<and> distinct (ids (handleRemoveItem True ''a'' [itemA, itemB]))
   \<and> distinct (ids (snd (handleManualPlay sampleSettings ''b'' [itemA, itemB])))
   \<and> distinct (ids (handleReorder [itemB, itemA] [itemA, itemB]))
   \<and> distinct (ids (snd (handleManualUpload sampleSettings 7 ''f.mp3'' ''blob:f'' [itemA, itemB])))
   \<and> distinct (ids (snd (handleChatSubmit sampleBrowser 7 sampleSettings [eventGoal] [itemA, itemB])))"
proof -
  have h: "distinct (ids [itemA, itemB])" by (simp add: itemA_def itemB_def)
  have p: "mset [itemB, itemA] = mset [itemA, itemB]" by simp
  have m: "''manual_'' @ string_of_nat 7 \<notin> set (ids [itemA, itemB])"
    by (simp add: itemA_def itemB_def)
  have c: "chatItems sampleBrowser 7 [eventGoal] = [chatItem 7 eventGoal []]"
    by (simp add: decodeAudio_def eventGoal_def)
  have c1: "distinct (ids (chatItems sampleBrowser 7 [eventGoal]))"
    unfolding c by simp
  have c2: "set (ids (chatItems sampleBrowser 7 [eventGoal])) \<inter> set (ids [itemA, itemB]) = {}"
    unfolding c by (simp add: chatItem_def orElse_def eventGoal_def itemA_def itemB_def)
  from ids_stay_distinct[OF h, of True sampleSettings "''a''" "[itemB, itemA]" 7
      "''f.mp3''" "''blob:f''" sampleBrowser "[eventGoal]"]
    ids_stay_distinct[OF h, of True sampleSettings "''b''" "[itemB, itemA]" 7
      "''f.mp3''" "''blob:f''" sampleBrowser "[eventGoal]"] h p m c1 c2
  show ?thesis by blast
qed

section \<open>Stale poll results\<close>

text \<open>
  Claim C6, as stated: a poll issued for match \<open>X\<close> whose response arrives after the
  session was reset to match \<open>Y\<close> changes neither the queue, nor the cursor, nor the
  statistics snapshot of \<open>Y\<close>. Here the tick starts for \<open>X\<close>, the operator saves the
  settings of \<open>Y\<close> (which clears the queue, the cursor and the snapshot), and the
  response arrives: its two events are in the queue of \<open>Y\<close>, the cursor is the id of the
  last one and the snapshot is the one of \<open>X\<close>.
\<close>

theorem stale_poll_mutates_new_session:
  "matchId (settings (initialState sampleSettings)) = ''X''
   \<and> matchId (settings (pollAcrossSave sampleBrowser 5 settingsY (Ok staleData)
          (initialState sampleSettings))) = ''Y''
   \<and> ids (queue (pollAcrossSave sampleBrowser 5 settingsY (Ok staleData)
          (initialState sampleSettings))) = [''a'', ''b'']
   \<and> lastEventRef (pollAcrossSave sampleBrowser 5 settingsY (Ok staleData)
          (initialState sampleSettings)) = ''b''
   \<and> lastStatsRef (pollAcrossSave sampleBrowser 5 settingsY (Ok staleData)
          (initialState sampleSettings)) = Some ''stats-of-X''"
  by (simp add: pollAcrossSave_def pollN8N_start_def pollN8N_finish_def saveSettings_def
      staleData_def settingsY_def poll_defs sample_defs queue_defs)

lemma applyPollData_settings_irrelevant:
  "queue (applyPollData br now cs d (st\<lparr>settings := s'\<rparr>)) = queue (applyPollData br now cs d st)
   \<and> lastEventRef (applyPollData br now cs d (st\<lparr>settings := s'\<rparr>))
       = lastEventRef (applyPollData br now cs d st)
   \<and> lastStatsRef (applyPollData br now cs d (st\<lparr>settings := s'\<rparr>))
       = lastStatsRef (applyPollData br now cs d st)"
  by (cases "currentStats d";
      cases "processEvents br now (events d) (lastEventRef st, [])")
     (auto simp: applyPollData_def Let_def split: prod.splits option.splits
           simp del: processEvents.simps)

lemma mset_ids_partition:
  "mset (ids (filter P q)) + mset (ids (filter (\<lambda>i. \<not> P i) q)) = mset (ids q)"
  by (induction q) simp_all

lemma mset_ids_splice_insert:
  "mset (ids (splice_insert i ys xs)) = mset (ids xs) + mset (ids ys)"
proof -
  have "mset (ids (take i xs)) + mset (ids (drop i xs)) = mset (ids (take i xs @ drop i xs))"
    by (simp only: ids_simps mset_append)
  also have "\<dots> = mset (ids xs)" by (simp only: append_take_drop_id)
  finally have "mset (ids (take i xs)) + mset (ids (drop i xs)) = mset (ids xs)" .
  then show ?thesis by (simp add: splice_insert_def add.commute add.left_commute)
qed

lemma pollMerge_mset_ids:
  "mset (ids (snd (pollMerge cs newItems prev))) = mset (ids prev) + mset (ids newItems)"
proof -
  let ?pri = "filter isImportant newItems"
  let ?nor = "filter (\<lambda>i. \<not> isImportant i) newItems"
  define inserted where "inserted =
     (case findIndex isPlaying prev of
        Some i \<Rightarrow> splice_insert (i + 1) ?pri prev
      | None \<Rightarrow> set_status 0 PLAYING ?pri @ prev)"
  have ins: "mset (ids inserted) = mset (ids prev) + mset (ids ?pri)"
    by (cases "findIndex isPlaying prev") (simp_all add: inserted_def mset_ids_splice_insert)
  define uq where "uq = (if length ?pri > 0 then inserted @ ?nor else prev @ newItems)"
  have uq: "mset (ids uq) = mset (ids prev) + mset (ids newItems)"
    using ins mset_ids_partition[of isImportant newItems]
    by (simp add: uq_def add.assoc)
  have "ids (snd (pollMerge cs newItems prev)) = ids uq"
    by (simp add: pollMerge_def Let_def uq_def inserted_def split: option.splits)
  with uq show ?thesis by simp
qed

lemma applyPollData_queue_eq:
  "queue (applyPollData br now cs d st) =
     (if snd (processEvents br now (events d) (lastEventRef st, [])) = [] then queue st
      else snd (pollMerge cs (snd (processEvents br now (events d) (lastEventRef st, [])))
             (queue st)))"
  by (cases "currentStats d"; cases "processEvents br now (events d) (lastEventRef st, [])";
      cases "events d")
     (simp_all add: applyPollData_def Let_def del: processEvents.simps, simp_all)

lemma applyPollData_lastEventRef:
  "lastEventRef (applyPollData br now cs d st)
     = fst (processEvents br now (events d) (lastEventRef st, []))"
  by (cases "currentStats d"; cases "processEvents br now (events d) (lastEventRef st, [])";
      cases "events d")
     (simp_all add: applyPollData_def Let_def del: processEvents.simps, simp_all)

lemma applyPollData_lastStatsRef:
  "lastStatsRef (applyPollData br now cs d st)
     = (case currentStats d of None \<Rightarrow> lastStatsRef st | Some stats \<Rightarrow> Some stats)"
  by (cases "currentStats d"; cases "processEvents br now (events d) (lastEventRef st, [])")
     (simp_all add: applyPollData_def Let_def del: processEvents.simps)

lemma applyPollData_mset_ids:
  "mset (ids (queue (applyPollData br now cs d st)))
     = mset (ids (queue st))
       + mset (ids (snd (processEvents br now (events d) (lastEventRef st, []))))"
  by (simp add: applyPollData_queue_eq pollMerge_mset_ids del: processEvents.simps)

lemma pollAcrossSave_applies:
  assumes "n8nUrl (settings st) \<noteq> []" and "matchId (settings st) \<noteq> []"
  shows "pollAcrossSave br now newSettings (Ok d) st
           = applyPollData br now (settings st) d
               (saveSettings newSettings (st\<lparr>pollCountRef := pollCountRef st + 1\<rparr>))"
  using assms by (simp add: pollAcrossSave_def pollN8N_start_def pollN8N_finish_def Let_def)


lemma processEvents_single_fresh:
  assumes "eventId e \<noteq> l" and "decodeAudio br e = Some u"
  shows "processEvents br now [e] (l, []) = (eventId e, [pollItem now e u])"
  using assms by simp

text \<open>
  Claim C6, amended. A poll result is dropped only when the polling effect has been torn
  down before it arrives: then nothing changes and no tick is scheduled. While the effect
  is mounted a parsed response is applied to the state that is current on arrival, whatever
  match id that state has and whatever match id the tick captured:
  \<^item> the next state is that of the block that handles the response, and one tick is
    scheduled;
  \<^item> the queue is the merge of the accepted items into the current queue (it is unchanged
    only when no item is accepted), so its ids are the ids it had plus those of every
    accepted item;
  \<^item> the cursor is the cursor the loop over the events ends with, and the snapshot is the
    one of the response when it carries one;
  \<^item> none of this depends on the current settings, so not on the current match id: no
    context tag is compared;
  \<^item> in particular, a response with one event that differs from the cursor and decodes
    puts that event's id into the queue and makes it the cursor;
  \<^item> and a tick that starts with complete settings, followed by a save of other settings
    and then by the response, ends in the state that the response block gives on the
    state after the save, with the settings captured by the tick.
\<close>

theorem mounted_poll_result_applied:
  "pollN8N_finish br now False cs outcome st = (st, None)
   \<and> pollN8N_finish br now True cs (Ok d) st = (applyPollData br now cs d st, Some 1000)
   \<and> queue (applyPollData br now cs d st)
       = (if snd (processEvents br now (events d) (lastEventRef st, [])) = [] then queue st
          else snd (pollMerge cs (snd (processEvents br now (events d) (lastEventRef st, [])))
                 (queue st)))
   \<and> mset (ids (queue (applyPollData br now cs d st)))
       = mset (ids (queue st))
         + mset (ids (snd (processEvents br now (events d) (lastEventRef st, []))))
   \<and> lastEventRef (applyPollData br now cs d st)
       = fst (processEvents br now (events d) (lastEventRef st, []))
   \<and> lastStatsRef (applyPollData br now cs d st)
       = (case currentStats d of None \<Rightarrow> lastStatsRef st | Some stats \<Rightarrow> Some stats)
   \<and> queue (fst (pollN8N_finish br now True cs outcome (st\<lparr>settings := s'\<rparr>)))
       = queue (fst (pollN8N_finish br now True cs outcome st))
   \<and> lastEventRef (fst (pollN8N_finish br now True cs outcome (st\<lparr>settings := s'\<rparr>)))
       = lastEventRef (fst (pollN8N_finish br now True cs outcome st))
   \<and> lastStatsRef (fst (pollN8N_finish br now True cs outcome (st\<lparr>settings := s'\<rparr>)))
       = lastStatsRef (fst (pollN8N_finish br now True cs outcome st))
   \<and> (events d = [e] \<and> eventId e \<noteq> lastEventRef st \<and> decodeAudio br e = Some u
        \<longrightarrow> eventId e \<in> set (ids (queue (applyPollData br now cs d st)))
            \<and> lastEventRef (applyPollData br now cs d st) = eventId e)
   \<and> (n8nUrl (settings st0) \<noteq> [] \<and> matchId (settings st0) \<noteq> []
        \<longrightarrow> pollAcrossSave br now newSettings (Ok d) st0
            = applyPollData br now (settings st0) d
                (saveSettings newSettings (st0\<lparr>pollCountRef := pollCountRef st0 + 1\<rparr>)))"
proof -
  have a: "pollN8N_finish br now False cs outcome st = (st, None)"
    by (cases outcome) (simp_all add: pollN8N_finish_def)
  have b: "pollN8N_finish br now True cs (Ok d) st = (applyPollData br now cs d st, Some 1000)"
    by (simp add: pollN8N_finish_def)
  have i: "queue (fst (pollN8N_finish br now True cs outcome (st\<lparr>settings := s'\<rparr>)))
             = queue (fst (pollN8N_finish br now True cs outcome st))
         \<and> lastEventRef (fst (pollN8N_finish br now True cs outcome (st\<lparr>settings := s'\<rparr>)))
             = lastEventRef (fst (pollN8N_finish br now True cs outcome st))
         \<and> lastStatsRef (fst (pollN8N_finish br now True cs outcome (st\<lparr>settings := s'\<rparr>)))
             = lastStatsRef (fst (pollN8N_finish br now True cs outcome st))"
    using applyPollData_settings_irrelevant[where br = br and now = now and cs = cs and st = st]
    by (cases outcome) (simp_all add: pollN8N_finish_def)
  have f: "eventId e \<in> set (ids (queue (applyPollData br now cs d st)))
           \<and> lastEventRef (applyPollData br now cs d st) = eventId e"
    if h: "events d = [e]" "eventId e \<noteq> lastEventRef st" "decodeAudio br e = Some u"
  proof -
    have pe: "processEvents br now (events d) (lastEventRef st, [])
                = (eventId e, [pollItem now e u])"
      unfolding h(1) using h(2) h(3) by (rule processEvents_single_fresh)
    have "eventId e \<in># mset (ids (queue (applyPollData br now cs d st)))"
      unfolding applyPollData_mset_ids pe by (simp add: pollItem_def)
    then have "eventId e \<in> set (ids (queue (applyPollData br now cs d st)))"
      by (simp only: set_mset_mset)
    moreover have "lastEventRef (applyPollData br now cs d st) = eventId e"
      unfolding applyPollData_lastEventRef pe by simp
    ultimately show ?thesis by simp
  qed
  from a b i f applyPollData_queue_eq[of br now cs d st] applyPollData_mset_ids[of br now cs d st]
    applyPollData_lastEventRef[of br now cs d st] applyPollData_lastStatsRef[of br now cs d st]
    pollAcrossSave_applies[of st0 br now newSettings d]
  show ?thesis by blast
qed

theorem mounted_poll_result_applied_witness:
  "matchId sampleSettings \<noteq> matchId (settings (initialState settingsY))
   \<and> events \<lparr>currentStats = Some ''stats-of-X'', events = [eventA]\<rparr> = [eventA]
   \<and> eventId eventA \<noteq> lastEventRef (initialState settingsY)
   \<and> decodeAudio sampleBrowser eventA = Some []
   \<and> eventId eventA \<in> set (ids (queue (applyPollData sampleBrowser 5 sampleSettings
          \<lparr>currentStats = Some ''stats-of-X'', events = [eventA]\<rparr> (initialState settingsY))))
   \<and> lastEventRef (applyPollData sampleBrowser 5 sampleSettings
          \<lparr>currentStats = Some ''stats-of-X'', events = [eventA]\<rparr> (initialState settingsY))
       = eventId eventA
   \<and> n8nUrl (settings (initialState sampleSettings)) \<noteq> []
   \<and> matchId (settings (initialState sampleSettings)) \<noteq> []
   \<and> pollAcrossSave sampleBrowser 5 settingsY
         (Ok \<lparr>currentStats = Some ''stats-of-X'', events = [eventA]\<rparr>) (initialState sampleSettings)
       = applyPollData sampleBrowser 5 (settings (initialState sampleSettings))
           \<lparr>currentStats = Some ''stats-of-X'', events = [eventA]\<rparr>
           (saveSettings settingsY ((initialState sampleSettings)
              \<lparr>pollCountRef := pollCountRef (initialState sampleSettings) + 1\<rparr>))"
proof -
  let ?d = "\<lparr>currentStats = Some ''stats-of-X'', events = [eventA]\<rparr>"
  have h0: "matchId sampleSettings \<noteq> matchId (settings (initialState settingsY))"
    by (simp add: initialState_def settingsY_def sampleSettings_def)
  have h1: "events ?d = [eventA]" by simp
  have h2: "eventId eventA \<noteq> lastEventRef (initialState settingsY)"
    by (simp add: eventA_def initialState_def)
  have h3: "decodeAudio sampleBrowser eventA = Some []"
    by (simp add: decodeAudio_def eventA_def)
  have h4: "n8nUrl (settings (initialState sampleSettings)) \<noteq> []"
    by (simp add: initialState_def sampleSettings_def)
  have h5: "matchId (settings (initialState sampleSettings)) \<noteq> []"
    by (simp add: initialState_def sampleSettings_def)
  from mounted_poll_result_applied[of sampleBrowser 5 sampleSettings _ "initialState settingsY"
      ?d _ eventA "[]" "initialState sampleSettings" settingsY] h0 h1 h2 h3 h4 h5
  show ?thesis by blast
qed

section \<open>Poll failures\<close>

text \<open>
  Claim C8, as stated: every poll failure, a timeout included, flags connectivity down.
  When the 8 second timer aborts the request the error is an \<^verbatim>\<open>AbortError\<close>, which the
  handler excludes: a connectivity flag that was up stays up.
\<close>

theorem timeout_leaves_connectivity_up:
  "n8nConnection (fst (pollN8N_finish sampleBrowser 0 True sampleSettings AbortError
       ((initialState sampleSettings)\<lparr>n8nConnection := True\<rparr>))) = True"
  by (simp add: pollN8N_finish_def)

text \<open>
  Claim C8, amended. While the polling effect is mounted: after a network error or a
  response whose status is not ok, connectivity is flagged down, the queue, the cursor and
  everything else are unchanged, and exactly one more tick is scheduled (after 1000 ms);
  after a timeout the state is unchanged altogether, connectivity included, and exactly one
  more tick is scheduled.
\<close>

theorem poll_failure_handling:
  "pollN8N_finish br now True cs NetworkError st = (st\<lparr>n8nConnection := False\<rparr>, Some 1000)
   \<and> pollN8N_finish br now True cs (NotOk code body) st = (st\<lparr>n8nConnection := False\<rparr>, Some 1000)
   \<and> pollN8N_finish br now True cs AbortError st = (st, Some 1000)"
  by (simp add: pollN8N_finish_def)

section \<open>Commands that name an absent item\<close>

lemma find_absent: "ident \<notin> set (ids q) \<Longrightarrow> find (\<lambda>i. itemId i = ident) q = None"
  by (induction q) (auto simp: ids_def)

lemma filter_absent: "ident \<notin> set (ids q) \<Longrightarrow> filter (\<lambda>i. itemId i \<noteq> ident) q = q"
  by (induction q) (auto simp: ids_def)

lemma play_absent_id_noop: "ident \<notin> set (ids (queue st)) \<Longrightarrow> step (Play ident) st = st"
  by (simp add: withSettingsQueue_def handleManualPlay_def find_absent)

lemma stop_item_absent_id_noop: "ident \<notin> set (ids q) \<Longrightarrow> handleManualStopItem ident q = q"
  by (simp add: handleManualStopItem_def find_absent)

lemma remove_absent_id_noop_unless_idle:
  "ident \<notin> set (ids q) \<Longrightarrow> activeCount q \<noteq> 0 \<or> \<not> ap \<or> q = [] \<Longrightarrow>
     handleRemoveItem ap ident q = q"
  by (auto simp: handleRemoveItem_def filter_absent find_isPlaying_None_iff)

text \<open>
  Claim C9. The claim: remove and explicit play on an id that is not in the queue return
  the queue unchanged. Explicit play does (\<open>play_absent_id_noop\<close>). Remove filters
  nothing out, but then starts the head of the queue whenever nothing is PLAYING and
  auto-play is on, whether or not it removed the playing item: the queued item \<open>B\<close>
  becomes PLAYING.
\<close>

theorem remove_absent_id_promotes_head:
  "''zzz'' \<notin> set (ids [itemB]) \<and> status itemB = QUEUED
   \<and> handleRemoveItem True ''zzz'' [itemB] = [itemB\<lparr>status := PLAYING\<rparr>]"
  by (simp add: handleRemoveItem_def queue_defs sample_defs)

section \<open>The skip-expensive-upstream hint\<close>

text \<open>
  Claim C10, as stated: the hint \<^verbatim>\<open>skipApi\<close> is true on the first tick. The first tick
  of a session sends \<^verbatim>\<open>skipApi: false\<close>: it is a full tick.
\<close>

theorem first_poll_is_full:
  "pollCountRef (initialState sampleSettings) = 0
   \<and> sentSkipApi (snd (pollN8N_start True (initialState sampleSettings))) = Some False"
  by (simp add: pollN8N_start_def shouldCallApi_def initialState_def sampleSettings_def Let_def)

text \<open>
  Claim C10, amended. A tick with complete settings increments the poll counter, and with
  \<open>n\<close> the incremented counter (ticks counted from 1) the hint it sends is false when
  \<open>n = 1\<close> or \<open>n\<close> is a multiple of 5 (a full tick), and true on every other tick.
\<close>

theorem skip_hint_schedule:
  assumes "n8nUrl (settings st) \<noteq> []" and "matchId (settings st) \<noteq> []"
  shows "sentSkipApi (snd (pollN8N_start m st))
           = Some (Suc (pollCountRef st) mod 5 \<noteq> 0 \<and> Suc (pollCountRef st) \<noteq> 1)
         \<and> pollCountRef (fst (pollN8N_start m st)) = Suc (pollCountRef st)"
  using assms by (simp add: pollN8N_start_def shouldCallApi_def Let_def)

theorem skip_hint_schedule_witness:
  "n8nUrl (settings ((initialState sampleSettings)\<lparr>pollCountRef := 4\<rparr>)) \<noteq> []
   \<and> matchId (settings ((initialState sampleSettings)\<lparr>pollCountRef := 4\<rparr>)) \<noteq> []
   \<and> sentSkipApi (snd (pollN8N_start True ((initialState sampleSettings)\<lparr>pollCountRef := 4\<rparr>)))
       = Some False
   \<and> pollCountRef (fst (pollN8N_start True ((initialState sampleSettings)\<lparr>pollCountRef := 4\<rparr>))) = 5"
proof -
  let ?st = "(initialState sampleSettings)\<lparr>pollCountRef := 4\<rparr>"
  have h1: "n8nUrl (settings ?st) \<noteq> []" by (simp add: initialState_def sampleSettings_def)
  have h2: "matchId (settings ?st) \<noteq> []" by (simp add: initialState_def sampleSettings_def)
  from skip_hint_schedule[OF h1 h2, of True] h1 h2 show ?thesis by simp
qed

end
